theory Spec2Isabelle
  imports Main "HOL-Library.Log_Nat"
begin

section \<open>Python strings\<close>

text \<open>
  A Python \<open>str\<close> is a sequence of Unicode code points. The bullet character U+2022 does
  not fit an 8-bit character, so a string is a list of code points, each a natural number.
  \<open>ustr\<close> reads an ASCII literal as such a list.
\<close>

type_synonym uchar = nat
type_synonym ustring = "uchar list"

definition ustr :: "string \<Rightarrow> ustring" where
  "ustr s = map of_char s"

text \<open>
  The whitespace of \<open>str.strip()\<close>, of \<open>str.split()\<close> and of the whitespace class of a
  \<open>str\<close> pattern is the same set of code points in CPython: U+0009..U+000D,
  U+001C..U+0020, U+0085, U+00A0, U+1680, U+2000..U+200A, U+2028, U+2029, U+202F, U+205F
  and U+3000.
\<close>

definition isspace :: "uchar \<Rightarrow> bool" where
  "isspace c \<longleftrightarrow>
     (9 \<le> c \<and> c \<le> 13) \<or> (28 \<le> c \<and> c \<le> 32) \<or> c = 133 \<or> c = 160 \<or> c = 5760 \<or>
     (8192 \<le> c \<and> c \<le> 8202) \<or> c = 8232 \<or> c = 8233 \<or> c = 8239 \<or> c = 8287 \<or> c = 12288"

text \<open>\<open>s.startswith(p)\<close>\<close>

fun startswith :: "ustring \<Rightarrow> ustring \<Rightarrow> bool" where
  "startswith s [] = True"
| "startswith [] (p # ps) = False"
| "startswith (c # cs) (p # ps) = (c = p \<and> startswith cs ps)"

text \<open>\<open>s.strip()\<close> and \<open>s.lstrip(chars)\<close>\<close>

definition py_strip :: "ustring \<Rightarrow> ustring" where
  "py_strip s = rev (dropWhile isspace (rev (dropWhile isspace s)))"

definition py_lstrip :: "ustring \<Rightarrow> ustring \<Rightarrow> ustring" where
  "py_lstrip chars s = dropWhile (\<lambda>c. c \<in> set chars) s"

text \<open>
  \<open>s.split(sep)\<close> for a separator of one character: every occurrence of the separator
  ends a field, and the result has at least one field.
\<close>

fun split_on :: "uchar \<Rightarrow> ustring \<Rightarrow> ustring list" where
  "split_on sep [] = [[]]"
| "split_on sep (c # cs) =
     (if c = sep then [] # split_on sep cs
      else (case split_on sep cs of
              [] \<Rightarrow> [[c]]
            | l # ls \<Rightarrow> (c # l) # ls))"

text \<open>
  \<open>s.split()\<close>: runs of whitespace separate the words and no word is empty. The first
  argument is the word being read.
\<close>

fun split_ws :: "ustring \<Rightarrow> ustring \<Rightarrow> ustring list" where
  "split_ws w [] = (if w = [] then [] else [w])"
| "split_ws w (c # cs) =
     (if isspace c then (if w = [] then split_ws [] cs else w # split_ws [] cs)
      else split_ws (w @ [c]) cs)"

definition py_split :: "ustring \<Rightarrow> ustring list" where
  "py_split s = split_ws [] s"

text \<open>\<open>sep.join(xs)\<close>\<close>

fun join :: "ustring \<Rightarrow> ustring list \<Rightarrow> ustring" where
  "join sep [] = []"
| "join sep [x] = x"
| "join sep (x # y # ys) = x @ sep @ join sep (y # ys)"

section \<open>Python floats\<close>

text \<open>
  A finite float is modelled by the rational number it denotes. \<open>to_double\<close> rounds a
  rational to the nearest number with a 53-bit significand, ties to even, which is what
  IEEE 754 binary64 does in its normal range (overflow and subnormal numbers are not
  modelled; the quotients below are far from both).
\<close>

definition round_half_even :: "rat \<Rightarrow> int" where
  "round_half_even x =
     (let f = \<lfloor>x\<rfloor>; r = x - of_int f in
      if r < 1 / 2 then f
      else if r > 1 / 2 then f + 1
      else if even f then f else f + 1)"

text \<open>The exponent \<open>e\<close> with \<open>2 powi e \<le> x < 2 powi (e + 1)\<close>, for a positive \<open>x\<close>.\<close>

definition binary_exponent :: "rat \<Rightarrow> int" where
  "binary_exponent x =
     (let (p, q) = quotient_of x;
          e0 = bitlen p - bitlen q
      in if 2 powi e0 \<le> x then e0 else e0 - 1)"

definition to_double :: "rat \<Rightarrow> rat" where
  "to_double x =
     (if x = 0 then 0
      else let e = binary_exponent \<bar>x\<bar>;
               m = round_half_even (\<bar>x\<bar> * 2 powi (52 - e))
           in sgn x * of_int m * 2 powi (e - 52))"

text \<open>
  \<open>a / b\<close> on integers is the correctly rounded quotient. \<open>round(x, 1)\<close> rounds the exact
  value of \<open>x\<close> to one decimal, ties to even, and returns the float nearest to that decimal.
\<close>

definition py_truediv :: "int \<Rightarrow> int \<Rightarrow> rat" where
  "py_truediv a b = to_double (of_int a / of_int b)"

definition py_round1 :: "rat \<Rightarrow> rat" where
  "py_round1 x = to_double (of_int (round_half_even (x * 10)) / 10)"

section \<open>Extracting the video identifier (app.py, lines 26-37)\<close>

text \<open>The character class \<open>[0-9A-Za-z_-]\<close>.\<close>

definition id_char :: "uchar \<Rightarrow> bool" where
  "id_char c \<longleftrightarrow>
     (48 \<le> c \<and> c \<le> 57) \<or> (65 \<le> c \<and> c \<le> 90) \<or> (97 \<le> c \<and> c \<le> 122) \<or> c = 95 \<or> c = 45"

text \<open>
  Each of the three patterns is a literal followed by the group \<open>([0-9A-Za-z_-]{11})\<close>, so
  a pattern is represented by its literal. \<open>match_at lit s\<close> matches the pattern at the
  start of \<open>s\<close> and returns the group; \<open>re_search\<close> is \<open>re.search\<close>: it tries every
  position from the left and returns the group of the first match.
\<close>

definition match_at :: "ustring \<Rightarrow> ustring \<Rightarrow> ustring option" where
  "match_at lit s =
     (let rest = drop (length lit) s in
      if startswith s lit \<and> 11 \<le> length rest \<and> list_all id_char (take 11 rest)
      then Some (take 11 rest) else None)"

fun re_search :: "ustring \<Rightarrow> ustring \<Rightarrow> ustring option" where
  "re_search lit [] = match_at lit []"
| "re_search lit (c # cs) =
     (case match_at lit (c # cs) of Some g \<Rightarrow> Some g | None \<Rightarrow> re_search lit cs)"

definition patterns :: "ustring list" where
  "patterns = [ustr ''v='', ustr ''youtu.be/'', ustr ''embed/'']"

fun first_match :: "ustring list \<Rightarrow> ustring \<Rightarrow> ustring option" where
  "first_match [] url = None"
| "first_match (pat # pats) url =
     (case re_search pat url of Some g \<Rightarrow> Some g | None \<Rightarrow> first_match pats url)"

definition extract_video_id :: "ustring \<Rightarrow> ustring option" where
  "extract_video_id url = first_match patterns url"

subsection \<open>What the specification says of a pattern\<close>

text \<open>
  A token is 11 characters of the class. A pattern matches a URL when its literal, followed
  by a token, occurs somewhere in the URL; the leftmost such occurrence gives the captured
  group.
\<close>

definition is_token :: "ustring \<Rightarrow> bool" where
  "is_token tok \<longleftrightarrow> length tok = 11 \<and> list_all id_char tok"

definition pattern_matches :: "ustring \<Rightarrow> ustring \<Rightarrow> bool" where
  "pattern_matches lit url \<longleftrightarrow> (\<exists>pre tok post. url = pre @ lit @ tok @ post \<and> is_token tok)"

definition leftmost_capture :: "ustring \<Rightarrow> ustring \<Rightarrow> ustring \<Rightarrow> bool" where
  "leftmost_capture lit url g \<longleftrightarrow>
     (\<exists>pre post. url = pre @ lit @ g @ post \<and> is_token g \<and>
        (\<forall>pre' g' post'. url = pre' @ lit @ g' @ post' \<and> is_token g' \<longrightarrow>
           length pre \<le> length pre'))"

section \<open>Fetching the transcript (app.py, lines 40-55)\<close>

text \<open>
  The exceptions the transcript library raises, each with its message \<open>str(e)\<close>:
  \<open>TranscriptsDisabled\<close>, and every other instance of \<open>Exception\<close>. What is raised outside
  the class \<open>Exception\<close> (a keyboard interrupt, say) passes through every handler of the
  program and is not modelled.
\<close>

datatype exn = TranscriptsDisabled ustring | OtherException ustring

text \<open>
  A transcript entry is a dictionary or an object; only its \<open>text\<close> is read, and it may
  be missing.
\<close>

datatype entry = DictEntry "ustring option" | ObjEntry "ustring option"

text \<open>
  The transcript library is outside the repository. Within one request each of its calls
  is made at most once, so each is a function from its arguments to an exception or a
  result. \<open>'tl\<close> is the type of a transcript list and \<open>'tr\<close> of one track.
\<close>

record ('tl, 'tr) provider =
  get_transcript :: "ustring \<Rightarrow> ustring list \<Rightarrow> exn + entry list"
  list_transcripts :: "ustring \<Rightarrow> exn + 'tl"
  find_transcript :: "'tl \<Rightarrow> ustring list \<Rightarrow> exn + 'tr"
  fetch :: "'tr \<Rightarrow> exn + entry list"

text \<open>The calls made to the library, in order, are returned beside the result.\<close>

datatype call =
    GetTranscript ustring "ustring list"
  | ListTranscripts ustring
  | FindTranscript "ustring list"
  | Fetch

text \<open>The body of the inner \<open>try\<close> (lines 51-52).\<close>

definition hindi_attempt ::
    "('tl, 'tr, 'm) provider_scheme \<Rightarrow> ustring \<Rightarrow> call list \<times> (exn + entry list)" where
  "hindi_attempt P video_id =
     (case list_transcripts P video_id of
        Inl e \<Rightarrow> ([ListTranscripts video_id], Inl e)
      | Inr transcripts \<Rightarrow>
          (case find_transcript P transcripts [ustr ''hi''] of
             Inl e \<Rightarrow> ([ListTranscripts video_id, FindTranscript [ustr ''hi'']], Inl e)
           | Inr t \<Rightarrow>
               ([ListTranscripts video_id, FindTranscript [ustr ''hi''], Fetch], fetch P t)))"

text \<open>
  The first handler re-raises \<open>TranscriptsDisabled\<close>. The second handler binds no name; the
  handler of the inner \<open>try\<close> binds \<open>e\<close> to the exception of the inner \<open>try\<close> and raises it.
\<close>

definition get_transcript_fallback ::
    "('tl, 'tr, 'm) provider_scheme \<Rightarrow> ustring \<Rightarrow> call list \<times> (exn + entry list)" where
  "get_transcript_fallback P video_id =
     (case get_transcript P video_id [ustr ''en''] of
        Inr entries \<Rightarrow> ([GetTranscript video_id [ustr ''en'']], Inr entries)
      | Inl (TranscriptsDisabled msg) \<Rightarrow>
          ([GetTranscript video_id [ustr ''en'']], Inl (TranscriptsDisabled msg))
      | Inl (OtherException msg) \<Rightarrow>
          (case hindi_attempt P video_id of
             (calls, Inr entries) \<Rightarrow> (GetTranscript video_id [ustr ''en''] # calls, Inr entries)
           | (calls, Inl e) \<Rightarrow> (GetTranscript video_id [ustr ''en''] # calls, Inl e)))"

section \<open>Trimming the transcript (app.py, lines 58-60)\<close>

definition max_chars_default :: nat where
  "max_chars_default = 4000"

definition trim_to_char_limit_at :: "ustring \<Rightarrow> nat \<Rightarrow> ustring" where
  "trim_to_char_limit_at text max_chars =
     (if length text \<le> max_chars then text else take max_chars text)"

definition trim_to_char_limit :: "ustring \<Rightarrow> ustring" where
  "trim_to_char_limit text = trim_to_char_limit_at text max_chars_default"

section \<open>The endpoint (app.py, lines 138-196)\<close>

text \<open>
  The summarizer client and the metadata fetch call services outside the repository and
  catch every exception, so each is a function of its argument. The summarizer's result is
  taken to be a string, as it is whenever the remote answer has a text; \<open>'vi\<close> is the type
  of the metadata mapping.
\<close>

record ('tl, 'tr, 'vi) services = "('tl, 'tr) provider" +
  generate_summary_with_gemini :: "ustring \<Rightarrow> ustring"
  fetch_video_info :: "ustring \<Rightarrow> 'vi"

record 'vi payload =
  transcript :: ustring
  summary :: ustring
  keyPoints :: "ustring list"
  tags :: "ustring list"
  wordCount :: nat
  readingTime :: rat
  videoInfo :: 'vi

text \<open>A response is an error body with its status, or the success payload (status 200).\<close>

datatype 'vi response =
    Json_error (status: nat) (error_message: ustring)
  | Json_ok (body: "'vi payload")

definition failure_marker :: ustring where
  "failure_marker = ustr ''Failed to generate summary:''"

text \<open>
  The test of line 169, \<open>re.match\<close> of a hyphen or the bullet U+2022 followed by at least
  one whitespace character, at the start of the line.
\<close>

definition is_bullet_line :: "ustring \<Rightarrow> bool" where
  "is_bullet_line line =
     (case line of
        c # d # rest \<Rightarrow> (c = 45 \<or> c = 8226) \<and> isspace d
      | _ \<Rightarrow> False)"

text \<open>
  Line 172: \<open>lstrip\<close> with the characters hyphen, bullet U+2022 and space, then \<open>strip()\<close>.
\<close>

definition strip_bullet :: "ustring \<Rightarrow> ustring" where
  "strip_bullet line = py_strip (py_lstrip [45, 8226, 32] line)"

text \<open>The state of the loop over the lines (lines 165-174) and one turn of it.\<close>

record scan_state =
  hit_bullets :: bool
  summary_lines :: "ustring list"
  bullets :: "ustring list"

definition scan_init :: scan_state where
  "scan_init = \<lparr>hit_bullets = False, summary_lines = [], bullets = []\<rparr>"

definition scan_step :: "scan_state \<Rightarrow> ustring \<Rightarrow> scan_state" where
  "scan_step st line =
     (let st1 = (if is_bullet_line line then st\<lparr>hit_bullets := True\<rparr> else st) in
      if hit_bullets st1 then st1\<lparr>bullets := bullets st1 @ [strip_bullet line]\<rparr>
      else st1\<lparr>summary_lines := summary_lines st1 @ [line]\<rparr>)"

definition scan_from :: "scan_state \<Rightarrow> ustring list \<Rightarrow> scan_state" where
  "scan_from st lines = foldl scan_step st lines"

definition scan_lines :: "ustring list \<Rightarrow> scan_state" where
  "scan_lines lines = scan_from scan_init lines"

text \<open>
  Lines 160-190, from the summarizer's output \<open>out\<close> to the response: the composer.
\<close>

definition compose ::
    "('tl, 'tr, 'vi) services \<Rightarrow> ustring \<Rightarrow> ustring \<Rightarrow> ustring \<Rightarrow> 'vi response" where
  "compose S vid trimmed out =
     (if startswith out failure_marker then Json_error 500 out
      else
        let st = scan_lines (split_on 10 out);
            summary_text = py_strip (join (ustr '' '') (summary_lines st));
            word_count = length (py_split trimmed);
            reading_time = py_round1 (py_truediv (int word_count) 200);
            video_info = fetch_video_info S vid
        in Json_ok \<lparr>transcript = trimmed,
                    summary = summary_text,
                    keyPoints = filter (\<lambda>b. b \<noteq> []) (bullets st),
                    tags = [ustr ''AI'', ustr ''Gemini'', ustr ''YouTube'', ustr ''Summary''],
                    wordCount = word_count,
                    readingTime = reading_time,
                    videoInfo = video_info\<rparr>)"

text \<open>\<open>entry.get("text", "")\<close> for a dictionary, \<open>getattr(entry, "text", "")\<close> otherwise.\<close>

fun entry_text :: "entry \<Rightarrow> ustring" where
  "entry_text (DictEntry None) = []"
| "entry_text (DictEntry (Some t)) = t"
| "entry_text (ObjEntry None) = []"
| "entry_text (ObjEntry (Some t)) = t"

text \<open>
  The endpoint, from the \<open>url\<close> field of the request body (\<open>None\<close> when the field or the
  body is missing) to the response.
\<close>

definition summarize_video ::
    "('tl, 'tr, 'vi) services \<Rightarrow> ustring option \<Rightarrow> 'vi response" where
  "summarize_video S url_field =
     (case url_field of
        None \<Rightarrow> Json_error 400 (ustr ''No URL provided'')
      | Some url \<Rightarrow>
          if url = [] then Json_error 400 (ustr ''No URL provided'')
          else
            (case extract_video_id url of
               None \<Rightarrow> Json_error 400 (ustr ''Invalid YouTube URL'')
             | Some vid \<Rightarrow>
                 if vid = [] then Json_error 400 (ustr ''Invalid YouTube URL'')
                 else
                   (case snd (get_transcript_fallback S vid) of
                      Inl (TranscriptsDisabled msg) \<Rightarrow>
                        Json_error 400 (ustr ''Transcript disabled for this video'')
                    | Inl (OtherException msg) \<Rightarrow>
                        Json_error 500 (ustr ''Failed to generate summary: '' @ msg)
                    | Inr entries \<Rightarrow>
                        (let full_text = join (ustr '' '') (map entry_text entries);
                             trimmed = trim_to_char_limit full_text
                         in compose S vid trimmed (generate_summary_with_gemini S trimmed)))))"

section \<open>Services for the examples\<close>

text \<open>
  Services whose English fetch answers \<open>en\<close>, whose Hindi track exists and answers \<open>hi\<close> when
  fetched, and whose summarizer answers \<open>out\<close>.
\<close>

definition stub_services ::
    "exn + entry list \<Rightarrow> exn + entry list \<Rightarrow> ustring \<Rightarrow> (unit, unit, unit) services" where
  "stub_services en hi out =
     \<lparr>get_transcript = (\<lambda>video_id languages. en),
      list_transcripts = (\<lambda>video_id. Inr ()),
      find_transcript = (\<lambda>transcripts languages. Inr ()),
      fetch = (\<lambda>t. hi),
      generate_summary_with_gemini = (\<lambda>transcript_text. out),
      fetch_video_info = (\<lambda>video_id. ())\<rparr>"

definition sample_url :: ustring where
  "sample_url = ustr ''https://youtu.be/dQw4w9WgXcQ''"

definition sample_id :: ustring where
  "sample_id = ustr ''dQw4w9WgXcQ''"

definition sample_entries :: "entry list" where
  "sample_entries = [DictEntry (Some (ustr ''hello'')), ObjEntry (Some (ustr ''world'')), DictEntry None]"

definition four_hundred_words :: "entry list" where
  "four_hundred_words = replicate 400 (DictEntry (Some (ustr ''a'')))"

section \<open>Properties of the trimming\<close>

text \<open>
  C2. For every string, \<open>trim_to_char_limit\<close> returns the text unchanged when it has at
  most 4000 characters and exactly its first 4000 characters when it has more; so the result
  never has more than 4000 characters, and trimming twice is the same as trimming once.
\<close>

theorem trim_to_char_limit_spec:
  "(length text \<le> 4000 \<longrightarrow> trim_to_char_limit text = text) \<and>
   (length text > 4000 \<longrightarrow>
      trim_to_char_limit text = take 4000 text \<and> length (trim_to_char_limit text) = 4000) \<and>
   length (trim_to_char_limit text) \<le> 4000 \<and>
   trim_to_char_limit (trim_to_char_limit text) = trim_to_char_limit text"
  by (simp add: trim_to_char_limit_def trim_to_char_limit_at_def max_chars_default_def)

theorem trim_to_char_limit_spec_witness:
  "length (replicate 4001 (97::nat)) > 4000 \<and>
   trim_to_char_limit (replicate 4001 97) = replicate 4000 97 \<and>
   length (ustr ''abc'') \<le> 4000 \<and>
   trim_to_char_limit (ustr ''abc'') = ustr ''abc''"
  using trim_to_char_limit_spec [of "replicate 4001 97"]
        trim_to_char_limit_spec [of "ustr ''abc''"]
  by (simp add: ustr_def)

section \<open>Properties of the identifier extractor\<close>

lemma startswith_iff: "startswith s p \<longleftrightarrow> (\<exists>r. s = p @ r)"
  by (induction s p rule: startswith.induct) auto

lemma match_at_Some_iff:
  "match_at lit s = Some g \<longleftrightarrow> (\<exists>post. s = lit @ g @ post \<and> is_token g)"
  apply (auto simp: match_at_def is_token_def startswith_iff Let_def)
  by (metis append_take_drop_id)

lemma match_at_None_iff:
  "match_at lit s = None \<longleftrightarrow> \<not> (\<exists>g post. s = lit @ g @ post \<and> is_token g)"
  using match_at_Some_iff [of lit s] by (metis not_Some_eq)

lemma re_search_None_iff:
  "re_search lit s = None \<longleftrightarrow> \<not> pattern_matches lit s"
proof (induction s)
  case Nil
  then show ?case by (auto simp: pattern_matches_def match_at_None_iff)
next
  case (Cons c cs)
  show ?case
  proof (cases "match_at lit (c # cs)")
    case None
    have "pattern_matches lit (c # cs) \<longleftrightarrow> pattern_matches lit cs"
    proof
      assume "pattern_matches lit (c # cs)"
      then obtain pre tok post where e: "c # cs = pre @ lit @ tok @ post" and t: "is_token tok"
        by (auto simp: pattern_matches_def)
      show "pattern_matches lit cs"
      proof (cases pre)
        case Nil
        with e t None show ?thesis by (auto simp: match_at_None_iff)
      next
        case (Cons a pre')
        with e t show ?thesis by (auto simp: pattern_matches_def)
      qed
    next
      assume "pattern_matches lit cs"
      then obtain pre tok post where e: "cs = pre @ lit @ tok @ post" and t: "is_token tok"
        by (auto simp: pattern_matches_def)
      then have "c # cs = (c # pre) @ lit @ tok @ post" by simp
      with t show "pattern_matches lit (c # cs)" unfolding pattern_matches_def by blast
    qed
    with None Cons show ?thesis by simp
  next
    case (Some g)
    then obtain post where "c # cs = [] @ lit @ g @ post" "is_token g"
      by (auto simp: match_at_Some_iff)
    then have "pattern_matches lit (c # cs)" unfolding pattern_matches_def by blast
    with Some show ?thesis by simp
  qed
qed

lemma leftmost_capture_unique:
  assumes "leftmost_capture lit url g" and "leftmost_capture lit url h"
  shows "g = h"
proof -
  from assms(1) obtain pre post where
    a: "url = pre @ lit @ g @ post" "is_token g"
    and am: "\<And>pre' g' post'. url = pre' @ lit @ g' @ post' \<Longrightarrow> is_token g' \<Longrightarrow> length pre \<le> length pre'"
    unfolding leftmost_capture_def by blast
  from assms(2) obtain pre2 post2 where
    b: "url = pre2 @ lit @ h @ post2" "is_token h"
    and bm: "\<And>pre' g' post'. url = pre' @ lit @ g' @ post' \<Longrightarrow> is_token g' \<Longrightarrow> length pre2 \<le> length pre'"
    unfolding leftmost_capture_def by blast
  have "length pre = length pre2"
    using am [OF b] bm [OF a] by simp
  with a(1) b(1) have "g @ post = h @ post2" by simp
  moreover have "length g = length h" using a(2) b(2) by (simp add: is_token_def)
  ultimately show ?thesis by simp
qed

lemma re_search_leftmost:
  "re_search lit s = Some g \<Longrightarrow> leftmost_capture lit s g"
proof (induction s)
  case Nil
  then show ?case by (auto simp: match_at_Some_iff is_token_def)
next
  case (Cons c cs)
  show ?case
  proof (cases "match_at lit (c # cs)")
    case (Some g')
    with Cons.prems have "g' = g" by simp
    with Some obtain post where "c # cs = [] @ lit @ g @ post" "is_token g"
      by (auto simp: match_at_Some_iff)
    then show ?thesis unfolding leftmost_capture_def by (metis le0 list.size(3))
  next
    case None
    with Cons.prems have "re_search lit cs = Some g" by simp
    from Cons.IH [OF this] obtain pre post where
      e: "cs = pre @ lit @ g @ post" and t: "is_token g"
      and m: "\<And>pre' g' post'. cs = pre' @ lit @ g' @ post' \<Longrightarrow> is_token g' \<Longrightarrow> length pre \<le> length pre'"
      unfolding leftmost_capture_def by blast
    have "length (c # pre) \<le> length pre'"
      if h: "c # cs = pre' @ lit @ g' @ post'" "is_token g'" for pre' g' post'
    proof (cases pre')
      case Nil
      with h None show ?thesis by (auto simp: match_at_None_iff)
    next
      case (Cons a as)
      with h have "cs = as @ lit @ g' @ post'" by simp
      from m [OF this h(2)] Cons show ?thesis by simp
    qed
    moreover from e have "c # cs = (c # pre) @ lit @ g @ post" by simp
    ultimately show ?thesis using t unfolding leftmost_capture_def by blast
  qed
qed

lemma re_search_Some_iff:
  "re_search lit s = Some g \<longleftrightarrow> leftmost_capture lit s g"
proof
  assume "re_search lit s = Some g"
  then show "leftmost_capture lit s g" by (rule re_search_leftmost)
next
  assume l: "leftmost_capture lit s g"
  then have "pattern_matches lit s"
    unfolding leftmost_capture_def pattern_matches_def by blast
  then have "re_search lit s \<noteq> None" by (simp add: re_search_None_iff)
  then obtain h where h: "re_search lit s = Some h" by blast
  from re_search_leftmost [OF h] l have "g = h" by (rule leftmost_capture_unique [symmetric])
  with h show "re_search lit s = Some g" by simp
qed

lemma pattern_matches_iff:
  "pattern_matches lit s \<longleftrightarrow> re_search lit s \<noteq> None"
  by (simp add: re_search_None_iff)

lemma re_search_absent_char:
  assumes "c \<in> set lit" and "c \<notin> set s"
  shows "re_search lit s = None"
proof -
  have "\<not> pattern_matches lit s"
    using assms unfolding pattern_matches_def by auto
  then show ?thesis by (simp add: re_search_None_iff)
qed

lemma token_chars: "is_token tok \<Longrightarrow> c \<in> set tok \<Longrightarrow> id_char c"
  by (simp add: is_token_def list_all_iff)

lemma shape_watch:
  assumes "is_token tok"
  shows "extract_video_id (ustr ''https://www.youtube.com/watch?v='' @ tok @ post) = Some tok"
  using assms
  by (simp add: extract_video_id_def patterns_def ustr_def match_at_def is_token_def)

lemma shape_short:
  assumes "is_token tok" and "\<not> pattern_matches (ustr ''v='') (ustr ''https://youtu.be/'' @ tok @ post)"
  shows "extract_video_id (ustr ''https://youtu.be/'' @ tok @ post) = Some tok"
proof -
  from assms(2) have "re_search (ustr ''v='') (ustr ''https://youtu.be/'' @ tok @ post) = None"
    by (simp add: re_search_None_iff)
  moreover have "re_search (ustr ''youtu.be/'') (ustr ''https://youtu.be/'' @ tok @ post) = Some tok"
    using assms(1) by (simp add: ustr_def match_at_def is_token_def)
  ultimately show ?thesis by (simp add: extract_video_id_def patterns_def)
qed

lemma shape_embed:
  assumes "is_token tok"
    and "\<not> pattern_matches (ustr ''v='') (ustr ''https://www.youtube.com/embed/'' @ tok @ post)"
    and "\<not> pattern_matches (ustr ''youtu.be/'') (ustr ''https://www.youtube.com/embed/'' @ tok @ post)"
  shows "extract_video_id (ustr ''https://www.youtube.com/embed/'' @ tok @ post) = Some tok"
proof -
  from assms(2) have "re_search (ustr ''v='') (ustr ''https://www.youtube.com/embed/'' @ tok @ post) = None"
    by (simp add: re_search_None_iff)
  moreover from assms(3) have "re_search (ustr ''youtu.be/'') (ustr ''https://www.youtube.com/embed/'' @ tok @ post) = None"
    by (simp add: re_search_None_iff)
  moreover have "re_search (ustr ''embed/'') (ustr ''https://www.youtube.com/embed/'' @ tok @ post) = Some tok"
    using assms(1) by (simp add: ustr_def match_at_def is_token_def)
  ultimately show ?thesis by (simp add: extract_video_id_def patterns_def)
qed

lemma token_no_eq: "is_token tok \<Longrightarrow> re_search (ustr ''v='') tok = None"
  by (rule re_search_absent_char [of 61]) (auto simp: ustr_def dest: token_chars simp: id_char_def)

lemma token_no_dot: "is_token tok \<Longrightarrow> re_search (ustr ''youtu.be/'') tok = None"
  by (rule re_search_absent_char [of 46]) (auto simp: ustr_def dest: token_chars simp: id_char_def)

lemma plain_short:
  assumes "is_token tok"
  shows "\<not> pattern_matches (ustr ''v='') (ustr ''https://youtu.be/'' @ tok)"
proof -
  have "re_search (ustr ''v='') (ustr ''https://youtu.be/'' @ tok) = re_search (ustr ''v='') tok"
    by (simp add: ustr_def match_at_def)
  then have "re_search (ustr ''v='') (ustr ''https://youtu.be/'' @ tok) = None"
    using token_no_eq [OF assms] by simp
  then show ?thesis using re_search_None_iff by blast
qed

lemma plain_embed:
  assumes "is_token tok"
  shows "\<not> pattern_matches (ustr ''v='') (ustr ''https://www.youtube.com/embed/'' @ tok)"
    and "\<not> pattern_matches (ustr ''youtu.be/'') (ustr ''https://www.youtube.com/embed/'' @ tok)"
proof -
  have "re_search (ustr ''v='') (ustr ''https://www.youtube.com/embed/'' @ tok) = re_search (ustr ''v='') tok"
    by (simp add: ustr_def match_at_def)
  then have "re_search (ustr ''v='') (ustr ''https://www.youtube.com/embed/'' @ tok) = None"
    using token_no_eq [OF assms] by simp
  then show "\<not> pattern_matches (ustr ''v='') (ustr ''https://www.youtube.com/embed/'' @ tok)"
    using re_search_None_iff by blast
  have "re_search (ustr ''youtu.be/'') (ustr ''https://www.youtube.com/embed/'' @ tok) = re_search (ustr ''youtu.be/'') tok"
    by (simp add: ustr_def match_at_def)
  then have "re_search (ustr ''youtu.be/'') (ustr ''https://www.youtube.com/embed/'' @ tok) = None"
    using token_no_dot [OF assms] by simp
  then show "\<not> pattern_matches (ustr ''youtu.be/'') (ustr ''https://www.youtube.com/embed/'' @ tok)"
    using re_search_None_iff by blast
qed


text \<open>
  C5. \<open>extract_video_id\<close> tries the patterns \<open>v=\<close>, \<open>youtu.be/\<close> and \<open>embed/\<close>, each followed
  by 11 characters of the class, in that order, and returns the group captured by the leftmost
  match of the first pattern that matches. For every token of 11 characters of the class, the
  URL of each of the three shapes that holds the token yields that token. A URL that none of
  the patterns matches yields \<open>None\<close>; a result is always a whole token that follows one of the
  three literals in the URL.
\<close>

theorem extract_video_id_spec:
  "(pattern_matches (ustr ''v='') url \<longrightarrow>
      (\<exists>g. extract_video_id url = Some g \<and> leftmost_capture (ustr ''v='') url g)) \<and>
   (\<not> pattern_matches (ustr ''v='') url \<and> pattern_matches (ustr ''youtu.be/'') url \<longrightarrow>
      (\<exists>g. extract_video_id url = Some g \<and> leftmost_capture (ustr ''youtu.be/'') url g)) \<and>
   (\<not> pattern_matches (ustr ''v='') url \<and> \<not> pattern_matches (ustr ''youtu.be/'') url \<and>
    pattern_matches (ustr ''embed/'') url \<longrightarrow>
      (\<exists>g. extract_video_id url = Some g \<and> leftmost_capture (ustr ''embed/'') url g)) \<and>
   (\<not> pattern_matches (ustr ''v='') url \<and> \<not> pattern_matches (ustr ''youtu.be/'') url \<and>
    \<not> pattern_matches (ustr ''embed/'') url \<longrightarrow> extract_video_id url = None) \<and>
   (extract_video_id url = Some g \<longrightarrow>
      is_token g \<and> (\<exists>lit \<in> set patterns. leftmost_capture lit url g)) \<and>
   (is_token tok \<longrightarrow>
      extract_video_id (ustr ''https://www.youtube.com/watch?v='' @ tok) = Some tok \<and>
      extract_video_id (ustr ''https://youtu.be/'' @ tok) = Some tok \<and>
      extract_video_id (ustr ''https://www.youtube.com/embed/'' @ tok) = Some tok)"
proof -
  let ?p1 = "ustr ''v=''" and ?p2 = "ustr ''youtu.be/''" and ?p3 = "ustr ''embed/''"
  have unfold: "extract_video_id url =
      (case re_search ?p1 url of Some g \<Rightarrow> Some g
       | None \<Rightarrow> (case re_search ?p2 url of Some g \<Rightarrow> Some g
                  | None \<Rightarrow> (case re_search ?p3 url of Some g \<Rightarrow> Some g | None \<Rightarrow> None)))"
    by (simp add: extract_video_id_def patterns_def split: option.splits)
  have first: "\<exists>g. extract_video_id url = Some g \<and> leftmost_capture ?p1 url g"
    if "pattern_matches ?p1 url"
  proof -
    from that obtain g where "re_search ?p1 url = Some g"
      using re_search_None_iff [of ?p1 url] by (cases "re_search ?p1 url") auto
    then show ?thesis using unfold re_search_leftmost by fastforce
  qed
  have second: "\<exists>g. extract_video_id url = Some g \<and> leftmost_capture ?p2 url g"
    if "\<not> pattern_matches ?p1 url" and "pattern_matches ?p2 url"
  proof -
    from that(1) have n1: "re_search ?p1 url = None" by (simp add: re_search_None_iff)
    from that(2) obtain g where "re_search ?p2 url = Some g"
      using re_search_None_iff [of ?p2 url] by (cases "re_search ?p2 url") auto
    then show ?thesis using unfold n1 re_search_leftmost by fastforce
  qed
  have third: "\<exists>g. extract_video_id url = Some g \<and> leftmost_capture ?p3 url g"
    if "\<not> pattern_matches ?p1 url" and "\<not> pattern_matches ?p2 url" and "pattern_matches ?p3 url"
  proof -
    from that(1) have n1: "re_search ?p1 url = None" by (simp add: re_search_None_iff)
    from that(2) have n2: "re_search ?p2 url = None" by (simp add: re_search_None_iff)
    from that(3) obtain g where "re_search ?p3 url = Some g"
      using re_search_None_iff [of ?p3 url] by (cases "re_search ?p3 url") auto
    then show ?thesis using unfold n1 n2 re_search_leftmost by fastforce
  qed
  have none: "extract_video_id url = None"
    if "\<not> pattern_matches ?p1 url" and "\<not> pattern_matches ?p2 url" and "\<not> pattern_matches ?p3 url"
    using that unfold by (simp add: pattern_matches_iff)
  have whole: "is_token g \<and> (\<exists>lit \<in> set patterns. leftmost_capture lit url g)"
    if "extract_video_id url = Some g"
  proof -
    from that unfold have "re_search ?p1 url = Some g \<or> re_search ?p2 url = Some g \<or> re_search ?p3 url = Some g"
      by (auto split: option.splits)
    then have l: "leftmost_capture ?p1 url g \<or> leftmost_capture ?p2 url g \<or> leftmost_capture ?p3 url g"
      using re_search_leftmost by blast
    then have "is_token g" unfolding leftmost_capture_def by blast
    with l show ?thesis by (auto simp: patterns_def)
  qed
  have shapes: "extract_video_id (ustr ''https://www.youtube.com/watch?v='' @ tok) = Some tok \<and>
      extract_video_id (ustr ''https://youtu.be/'' @ tok) = Some tok \<and>
      extract_video_id (ustr ''https://www.youtube.com/embed/'' @ tok) = Some tok"
    if t: "is_token tok"
    using shape_watch [OF t, of "[]"] shape_short [OF t, of "[]"] shape_embed [OF t, of "[]"]
      plain_short [OF t] plain_embed [OF t]
    by simp
  from first second third none whole shapes show ?thesis by blast
qed

theorem extract_video_id_spec_witness:
  "pattern_matches (ustr ''v='') (ustr ''https://www.youtube.com/watch?v=dQw4w9WgXcQ&t=42s'') \<and>
   extract_video_id (ustr ''https://www.youtube.com/watch?v=dQw4w9WgXcQ&t=42s'') = Some (ustr ''dQw4w9WgXcQ'') \<and>
   \<not> pattern_matches (ustr ''v='') (ustr ''https://youtu.be/dQw4w9WgXcQ'') \<and>
   pattern_matches (ustr ''youtu.be/'') (ustr ''https://youtu.be/dQw4w9WgXcQ'') \<and>
   leftmost_capture (ustr ''youtu.be/'') (ustr ''https://youtu.be/dQw4w9WgXcQ'') (ustr ''dQw4w9WgXcQ'') \<and>
   \<not> pattern_matches (ustr ''v='') (ustr ''https://www.youtube.com/embed/dQw4w9WgXcQ'') \<and>
   \<not> pattern_matches (ustr ''youtu.be/'') (ustr ''https://www.youtube.com/embed/dQw4w9WgXcQ'') \<and>
   pattern_matches (ustr ''embed/'') (ustr ''https://www.youtube.com/embed/dQw4w9WgXcQ'') \<and>
   leftmost_capture (ustr ''embed/'') (ustr ''https://www.youtube.com/embed/dQw4w9WgXcQ'') (ustr ''dQw4w9WgXcQ'') \<and>
   \<not> pattern_matches (ustr ''v='') (ustr ''https://www.youtube.com/watch?v=short'') \<and>
   \<not> pattern_matches (ustr ''youtu.be/'') (ustr ''https://www.youtube.com/watch?v=short'') \<and>
   \<not> pattern_matches (ustr ''embed/'') (ustr ''https://www.youtube.com/watch?v=short'') \<and>
   extract_video_id (ustr ''https://www.youtube.com/watch?v=short'') = None \<and>
   is_token (ustr ''dQw4w9WgXcQ'')"
proof -
  let ?t = "ustr ''dQw4w9WgXcQ''"
  let ?w = "ustr ''https://www.youtube.com/watch?v=dQw4w9WgXcQ&t=42s''"
  let ?y = "ustr ''https://youtu.be/dQw4w9WgXcQ''"
  let ?e = "ustr ''https://www.youtube.com/embed/dQw4w9WgXcQ''"
  let ?n = "ustr ''https://www.youtube.com/watch?v=short''"
  have ev: "is_token ?t"
    "re_search (ustr ''v='') ?w = Some ?t"
    "re_search (ustr ''v='') ?y = None" "re_search (ustr ''youtu.be/'') ?y = Some ?t"
    "re_search (ustr ''v='') ?e = None" "re_search (ustr ''youtu.be/'') ?e = None"
    "re_search (ustr ''embed/'') ?e = Some ?t"
    "re_search (ustr ''v='') ?n = None" "re_search (ustr ''youtu.be/'') ?n = None"
    "re_search (ustr ''embed/'') ?n = None"
    by (simp_all add: ustr_def match_at_def id_char_def is_token_def)
  have pm: "pattern_matches (ustr ''v='') ?w"
    "\<not> pattern_matches (ustr ''v='') ?y" "pattern_matches (ustr ''youtu.be/'') ?y"
    "\<not> pattern_matches (ustr ''v='') ?e" "\<not> pattern_matches (ustr ''youtu.be/'') ?e"
    "pattern_matches (ustr ''embed/'') ?e"
    "\<not> pattern_matches (ustr ''v='') ?n" "\<not> pattern_matches (ustr ''youtu.be/'') ?n"
    "\<not> pattern_matches (ustr ''embed/'') ?n"
    using ev by (simp_all add: pattern_matches_iff)
  have lc: "leftmost_capture (ustr ''youtu.be/'') ?y ?t" "leftmost_capture (ustr ''embed/'') ?e ?t"
    using ev by (simp_all add: re_search_Some_iff [symmetric])
  have w: "extract_video_id ?w = Some ?t"
  proof -
    from extract_video_id_spec [of ?w undefined ?t] pm(1)
    obtain g where g: "extract_video_id ?w = Some g" "leftmost_capture (ustr ''v='') ?w g"
      by blast
    from g(2) ev(2) have "g = ?t" by (simp add: re_search_Some_iff [symmetric])
    with g(1) show ?thesis by simp
  qed
  have n: "extract_video_id ?n = None"
    using extract_video_id_spec [of ?n undefined ?t] pm(7-9) by blast
  from pm ev(1) lc w n show ?thesis by blast
qed

lemma extract_video_id_token: "extract_video_id url = Some g \<Longrightarrow> is_token g"
proof -
  assume "extract_video_id url = Some g"
  then have "\<exists>lit. re_search lit url = Some g"
    by (auto simp: extract_video_id_def patterns_def split: option.splits)
  then show ?thesis using re_search_leftmost leftmost_capture_def by blast
qed

lemma sample_extract: "extract_video_id sample_url = Some sample_id"
  by (simp add: sample_url_def sample_id_def extract_video_id_def patterns_def ustr_def
      match_at_def id_char_def)

section \<open>Properties of the transcript fetcher\<close>

lemma hindi_attempt_fails:
  assumes "get_transcript P video_id [ustr ''en''] = Inl (OtherException msg)"
    and "snd (hindi_attempt P video_id) = Inl e"
  shows "snd (get_transcript_fallback P video_id) = Inl e"
  using assms
  by (cases "hindi_attempt P video_id") (auto simp: get_transcript_fallback_def split: sum.splits)

text \<open>
  C1. At a video whose English fetch raises an exception other than \<open>TranscriptsDisabled\<close> and
  whose Hindi fetch raises too, \<open>get_transcript_fallback\<close> raises the exception of the Hindi
  attempt, and the English one is lost.
\<close>

theorem get_transcript_fallback_raises_hindi_failure:
  "snd (get_transcript_fallback
          (stub_services (Inl (OtherException (ustr ''no English transcript'')))
                         (Inl (OtherException (ustr ''no Hindi transcript''))) [])
          sample_id)
   = Inl (OtherException (ustr ''no Hindi transcript''))"
  by (simp add: get_transcript_fallback_def hindi_attempt_def stub_services_def)

text \<open>
  C6. When the English fetch raises \<open>TranscriptsDisabled\<close>, \<open>get_transcript_fallback\<close> raises
  that same exception after that one call, with no call for the Hindi track, and the endpoint
  answers 400 with the message "Transcript disabled for this video".
\<close>

theorem transcripts_disabled_no_fallback:
  assumes "get_transcript S vid [ustr ''en''] = Inl (TranscriptsDisabled msg)"
  shows "get_transcript_fallback S vid =
           ([GetTranscript vid [ustr ''en'']], Inl (TranscriptsDisabled msg)) \<and>
         (url \<noteq> [] \<and> extract_video_id url = Some vid \<longrightarrow>
            summarize_video S (Some url) =
              Json_error 400 (ustr ''Transcript disabled for this video''))"
proof -
  have f: "get_transcript_fallback S vid =
           ([GetTranscript vid [ustr ''en'']], Inl (TranscriptsDisabled msg))"
    using assms by (simp add: get_transcript_fallback_def)
  have "summarize_video S (Some url) = Json_error 400 (ustr ''Transcript disabled for this video'')"
    if "url \<noteq> []" and e: "extract_video_id url = Some vid"
  proof -
    from extract_video_id_token [OF e] have "vid \<noteq> []" by (auto simp: is_token_def)
    with that f show ?thesis by (simp add: summarize_video_def)
  qed
  with f show ?thesis by blast
qed

theorem transcripts_disabled_no_fallback_witness:
  "get_transcript (stub_services (Inl (TranscriptsDisabled (ustr ''disabled''))) (Inr sample_entries) [])
      sample_id [ustr ''en''] = Inl (TranscriptsDisabled (ustr ''disabled'')) \<and>
   sample_url \<noteq> [] \<and> extract_video_id sample_url = Some sample_id \<and>
   get_transcript_fallback
      (stub_services (Inl (TranscriptsDisabled (ustr ''disabled''))) (Inr sample_entries) []) sample_id =
     ([GetTranscript sample_id [ustr ''en'']], Inl (TranscriptsDisabled (ustr ''disabled''))) \<and>
   summarize_video
      (stub_services (Inl (TranscriptsDisabled (ustr ''disabled''))) (Inr sample_entries) [])
      (Some sample_url) =
     Json_error 400 (ustr ''Transcript disabled for this video'')"
proof -
  let ?S = "stub_services (Inl (TranscriptsDisabled (ustr ''disabled''))) (Inr sample_entries) []"
  have h: "get_transcript ?S sample_id [ustr ''en''] = Inl (TranscriptsDisabled (ustr ''disabled''))"
    by (simp add: stub_services_def)
  have u: "sample_url \<noteq> []" by (simp add: sample_url_def ustr_def)
  from transcripts_disabled_no_fallback [OF h, of sample_url] h u sample_extract
  show ?thesis by simp
qed

text \<open>
  C9. When the English fetch raises an exception other than \<open>TranscriptsDisabled\<close> and the Hindi
  attempt succeeds (the tracks are listed, the Hindi track is found and its fetch returns),
  \<open>get_transcript_fallback\<close> returns the entries of the Hindi track.
\<close>

theorem hindi_fallback_returns_hindi_entries:
  assumes "get_transcript P vid [ustr ''en''] = Inl (OtherException msg)"
    and "list_transcripts P vid = Inr transcripts"
    and "find_transcript P transcripts [ustr ''hi''] = Inr t"
    and "fetch P t = Inr entries"
  shows "get_transcript_fallback P vid =
           ([GetTranscript vid [ustr ''en''], ListTranscripts vid, FindTranscript [ustr ''hi''], Fetch],
            Inr entries)"
  using assms by (simp add: get_transcript_fallback_def hindi_attempt_def)

theorem hindi_fallback_returns_hindi_entries_witness:
  "get_transcript (stub_services (Inl (OtherException (ustr ''no English transcript''))) (Inr sample_entries) [])
      sample_id [ustr ''en''] = Inl (OtherException (ustr ''no English transcript'')) \<and>
   list_transcripts (stub_services (Inl (OtherException (ustr ''no English transcript''))) (Inr sample_entries) [])
      sample_id = Inr () \<and>
   find_transcript (stub_services (Inl (OtherException (ustr ''no English transcript''))) (Inr sample_entries) [])
      () [ustr ''hi''] = Inr () \<and>
   fetch (stub_services (Inl (OtherException (ustr ''no English transcript''))) (Inr sample_entries) []) ()
      = Inr sample_entries \<and>
   snd (get_transcript_fallback
      (stub_services (Inl (OtherException (ustr ''no English transcript''))) (Inr sample_entries) [])
      sample_id) = Inr sample_entries"
proof -
  let ?S = "stub_services (Inl (OtherException (ustr ''no English transcript''))) (Inr sample_entries) []"
  have h: "get_transcript ?S sample_id [ustr ''en''] = Inl (OtherException (ustr ''no English transcript''))"
    "list_transcripts ?S sample_id = Inr ()"
    "find_transcript ?S () [ustr ''hi''] = Inr ()"
    "fetch ?S () = Inr sample_entries"
    by (simp_all add: stub_services_def)
  from hindi_fallback_returns_hindi_entries [OF h] h show ?thesis by simp
qed

section \<open>Properties of the endpoint\<close>

text \<open>
  C7. When the summarizer's output starts with the marker "Failed to generate summary:", the
  endpoint answers 500 with that whole output as the error message, and no success payload.
\<close>

theorem failure_marker_gives_500:
  assumes "url \<noteq> []"
    and "extract_video_id url = Some vid"
    and "snd (get_transcript_fallback S vid) = Inr entries"
    and "generate_summary_with_gemini S (trim_to_char_limit (join (ustr '' '') (map entry_text entries))) = out"
    and "startswith out failure_marker"
  shows "summarize_video S (Some url) = Json_error 500 out \<and>
         (\<forall>p. summarize_video S (Some url) \<noteq> Json_ok p)"
proof -
  from extract_video_id_token [OF assms(2)] have "vid \<noteq> []" by (auto simp: is_token_def)
  with assms have "summarize_video S (Some url) = Json_error 500 out"
    by (simp add: summarize_video_def compose_def)
  then show ?thesis by simp
qed

theorem failure_marker_gives_500_witness:
  "sample_url \<noteq> [] \<and>
   extract_video_id sample_url = Some sample_id \<and>
   snd (get_transcript_fallback
          (stub_services (Inr sample_entries) (Inr [])
             (ustr ''Failed to generate summary: Unexpected API response.''))
          sample_id) = Inr sample_entries \<and>
   startswith (ustr ''Failed to generate summary: Unexpected API response.'') failure_marker \<and>
   summarize_video
     (stub_services (Inr sample_entries) (Inr [])
        (ustr ''Failed to generate summary: Unexpected API response.''))
     (Some sample_url) =
     Json_error 500 (ustr ''Failed to generate summary: Unexpected API response.'')"
proof -
  let ?out = "ustr ''Failed to generate summary: Unexpected API response.''"
  let ?S = "stub_services (Inr sample_entries) (Inr []) ?out"
  have u: "sample_url \<noteq> []" by (simp add: sample_url_def ustr_def)
  have f: "snd (get_transcript_fallback ?S sample_id) = Inr sample_entries"
    by (simp add: get_transcript_fallback_def stub_services_def)
  have g: "generate_summary_with_gemini ?S
             (trim_to_char_limit (join (ustr '' '') (map entry_text sample_entries))) = ?out"
    by (simp add: stub_services_def)
  have m: "startswith ?out failure_marker"
    by (simp add: failure_marker_def ustr_def)
  from failure_marker_gives_500 [OF u sample_extract f g m] u sample_extract f m
  show ?thesis by simp
qed

section \<open>Properties of the line scan\<close>

lemma scan_step_latched:
  "hit_bullets st \<Longrightarrow> scan_step st line = st\<lparr>bullets := bullets st @ [strip_bullet line]\<rparr>"
  by (simp add: scan_step_def)

lemma scan_from_latched:
  "hit_bullets st \<Longrightarrow> scan_from st ls = st\<lparr>bullets := bullets st @ map strip_bullet ls\<rparr>"
proof (induction ls arbitrary: st)
  case Nil
  then show ?case by (simp add: scan_from_def)
next
  case (Cons l ls)
  have "scan_from st (l # ls) = scan_from (scan_step st l) ls"
    by (simp add: scan_from_def)
  also have "\<dots> = scan_from (st\<lparr>bullets := bullets st @ [strip_bullet l]\<rparr>) ls"
    using Cons.prems by (simp add: scan_step_latched)
  also have "\<dots> = st\<lparr>bullets := bullets st @ map strip_bullet (l # ls)\<rparr>"
    using Cons.prems by (simp add: Cons.IH)
  finally show ?case .
qed

lemma scan_from_append:
  "scan_from st (xs @ ys) = scan_from (scan_from st xs) ys"
  by (simp add: scan_from_def)

lemma scan_step_bullet:
  "is_bullet_line l \<Longrightarrow>
     scan_step st l = st\<lparr>hit_bullets := True, bullets := bullets st @ [strip_bullet l]\<rparr>"
  by (simp add: scan_step_def)

lemma scan_from_prose:
  "\<not> hit_bullets st \<Longrightarrow> \<forall>l \<in> set ls. \<not> is_bullet_line l \<Longrightarrow>
     scan_from st ls = st\<lparr>summary_lines := summary_lines st @ ls\<rparr>"
proof (induction ls arbitrary: st)
  case Nil
  then show ?case by (simp add: scan_from_def)
next
  case (Cons l ls)
  have s: "scan_step st l = st\<lparr>summary_lines := summary_lines st @ [l]\<rparr>"
    using Cons.prems by (simp add: scan_step_def)
  have "scan_from st (l # ls) = scan_from (scan_step st l) ls"
    by (simp add: scan_from_def)
  also have "\<dots> = st\<lparr>summary_lines := summary_lines st @ l # ls\<rparr>"
    using Cons.prems by (simp add: s Cons.IH)
  finally show ?case .
qed

text \<open>
  C3. Once a line has matched the bullet pattern, every later line, matching or not, is
  stripped of its bullet prefix and appended to the bullet list, and no later line is added
  to the prose lines: the latch never opens again.
\<close>

theorem bullet_latch:
  assumes "is_bullet_line l"
  shows "hit_bullets (scan_lines (pre @ l # post)) \<and>
         bullets (scan_lines (pre @ l # post)) =
           bullets (scan_lines pre) @ strip_bullet l # map strip_bullet post \<and>
         summary_lines (scan_lines (pre @ l # post)) = summary_lines (scan_lines pre)"
proof -
  let ?st = "scan_lines pre"
  have "scan_lines (pre @ l # post) = scan_from (scan_step ?st l) post"
    by (simp add: scan_lines_def scan_from_def)
  also have "\<dots> = scan_from (?st\<lparr>hit_bullets := True, bullets := bullets ?st @ [strip_bullet l]\<rparr>) post"
    using assms by (simp add: scan_step_bullet)
  also have "\<dots> = ?st\<lparr>hit_bullets := True,
                         bullets := bullets ?st @ strip_bullet l # map strip_bullet post\<rparr>"
    by (simp add: scan_from_latched)
  finally show ?thesis by simp
qed

theorem bullet_latch_witness:
  "is_bullet_line (ustr ''- first'') \<and>
   \<not> is_bullet_line (ustr ''not a bullet'') \<and>
   hit_bullets (scan_lines ([ustr ''Intro''] @ ustr ''- first'' # [ustr ''not a bullet'', ustr ''- last''])) \<and>
   bullets (scan_lines ([ustr ''Intro''] @ ustr ''- first'' # [ustr ''not a bullet'', ustr ''- last''])) =
     [ustr ''first'', ustr ''not a bullet'', ustr ''last''] \<and>
   summary_lines (scan_lines ([ustr ''Intro''] @ ustr ''- first'' # [ustr ''not a bullet'', ustr ''- last''])) =
     [ustr ''Intro'']"
proof -
  have b: "is_bullet_line (ustr ''- first'')"
    by (simp add: is_bullet_line_def ustr_def isspace_def)
  have n: "\<not> is_bullet_line (ustr ''not a bullet'')" "\<not> is_bullet_line (ustr ''Intro'')"
    by (simp_all add: is_bullet_line_def ustr_def)
  have p: "scan_lines [ustr ''Intro''] = \<lparr>hit_bullets = False, summary_lines = [ustr ''Intro''], bullets = []\<rparr>"
    using n by (simp add: scan_lines_def scan_from_def scan_init_def scan_step_def)
  have s: "strip_bullet (ustr ''- first'') = ustr ''first''"
    "strip_bullet (ustr ''not a bullet'') = ustr ''not a bullet''"
    "strip_bullet (ustr ''- last'') = ustr ''last''"
    by (simp_all add: strip_bullet_def py_strip_def py_lstrip_def ustr_def isspace_def)
  from bullet_latch [OF b, of "[ustr ''Intro'']" "[ustr ''not a bullet'', ustr ''- last'']"] b n p s
  show ?thesis by simp
qed

section \<open>Properties of the composer\<close>

lemma last_dropWhile:
  "dropWhile P xs \<noteq> [] \<Longrightarrow> last (dropWhile P xs) = last xs"
  by (induction xs) (auto split: if_splits)

lemma py_strip_ends:
  assumes "py_strip s \<noteq> []"
  shows "\<not> isspace (hd (py_strip s))" and "\<not> isspace (last (py_strip s))"
proof -
  let ?t = "dropWhile isspace s"
  let ?u = "dropWhile isspace (rev ?t)"
  from assms have u: "?u \<noteq> []" by (simp add: py_strip_def)
  have t: "?t \<noteq> []"
  proof
    assume e: "?t = []"
    have "?u = []" unfolding e by simp
    with u show False by simp
  qed
  have "hd (py_strip s) = last ?u" using u by (simp add: py_strip_def hd_rev)
  also have "\<dots> = last (rev ?t)" using u by (rule last_dropWhile)
  also have "\<dots> = hd ?t" using t by (simp add: last_rev)
  finally have "hd (py_strip s) = hd ?t" .
  with t show "\<not> isspace (hd (py_strip s))" by (simp add: hd_dropWhile)
  have "last (py_strip s) = hd ?u" using u by (simp add: py_strip_def last_rev)
  with u show "\<not> isspace (last (py_strip s))" by (simp add: hd_dropWhile)
qed

lemma py_strip_keeps_head:
  assumes "r \<noteq> []" and "\<not> isspace (hd r)"
  shows "py_strip r \<noteq> []" and "hd (py_strip r) = hd r"
proof -
  from assms have d: "dropWhile isspace r = r" by (cases r) auto
  have "hd r \<in> set (rev r)" using assms(1) by simp
  with assms(2) have u: "dropWhile isspace (rev r) \<noteq> []"
    by (metis dropWhile_eq_Nil_conv)
  then show "py_strip r \<noteq> []" by (simp add: py_strip_def d)
  have "hd (py_strip r) = last (dropWhile isspace (rev r))"
    using u by (simp add: py_strip_def d hd_rev)
  also have "\<dots> = last (rev r)" using u by (rule last_dropWhile)
  also have "\<dots> = hd r" using assms(1) by (simp add: last_rev)
  finally show "hd (py_strip r) = hd r" .
qed

lemma py_lstrip_head:
  "py_lstrip chars s \<noteq> [] \<Longrightarrow> hd (py_lstrip chars s) \<notin> set chars"
  unfolding py_lstrip_def by (rule hd_dropWhile)

lemma bullets_scan_from:
  "set (bullets (scan_from st ls)) \<subseteq> set (bullets st) \<union> strip_bullet ` set ls"
proof (induction ls arbitrary: st)
  case Nil
  then show ?case by (simp add: scan_from_def)
next
  case (Cons l ls)
  have "scan_from st (l # ls) = scan_from (scan_step st l) ls"
    by (simp add: scan_from_def)
  moreover have "set (bullets (scan_step st l)) \<subseteq> set (bullets st) \<union> {strip_bullet l}"
    by (auto simp: scan_step_def Let_def)
  ultimately show ?case using Cons.IH [of "scan_step st l"] by auto
qed

lemma bullets_scan_lines:
  "k \<in> set (bullets (scan_lines ls)) \<Longrightarrow> \<exists>line \<in> set ls. k = strip_bullet line"
  using bullets_scan_from [of scan_init ls] by (auto simp: scan_lines_def scan_init_def)

lemma compose_ok:
  "\<not> startswith out failure_marker \<Longrightarrow>
     \<exists>p. compose S vid trimmed out = Json_ok p \<and>
         transcript p = trimmed \<and>
         summary p = py_strip (join (ustr '' '') (summary_lines (scan_lines (split_on 10 out)))) \<and>
         keyPoints p = filter (\<lambda>b. b \<noteq> []) (bullets (scan_lines (split_on 10 out))) \<and>
         wordCount p = length (py_split trimmed) \<and>
         readingTime p = py_round1 (py_truediv (int (length (py_split trimmed))) 200)"
  by (simp add: compose_def Let_def)

lemma compose_ok_iff:
  "compose S vid trimmed out = Json_ok p \<Longrightarrow> \<not> startswith out failure_marker"
  by (auto simp: compose_def split: if_splits)

text \<open>
  C4, as the code has it. For the text "Intro line.", "- point one", "- point two" on three
  lines the composer gives the summary "Intro line." and the key points "point one" and
  "point two". For a text that does not start with the failure marker and has no line
  matching the bullet pattern, the key points are empty and the summary is the lines joined
  by single spaces, with the whitespace at both ends stripped.
\<close>

theorem compose_summary_and_key_points:
  "(\<exists>p. compose S vid trimmed
           (ustr ''Intro line.'' @ [10] @ ustr ''- point one'' @ [10] @ ustr ''- point two'') = Json_ok p \<and>
        summary p = ustr ''Intro line.'' \<and>
        keyPoints p = [ustr ''point one'', ustr ''point two'']) \<and>
   (\<not> startswith out failure_marker \<and> (\<forall>l \<in> set (split_on 10 out). \<not> is_bullet_line l) \<longrightarrow>
      (\<exists>p. compose S vid trimmed out = Json_ok p \<and>
           keyPoints p = [] \<and>
           summary p = py_strip (join (ustr '' '') (split_on 10 out))))"
proof -
  let ?ex = "ustr ''Intro line.'' @ [10] @ ustr ''- point one'' @ [10] @ ustr ''- point two''"
  have m: "\<not> startswith ?ex failure_marker"
    by (simp add: failure_marker_def ustr_def)
  have l: "split_on 10 ?ex = [ustr ''Intro line.'', ustr ''- point one'', ustr ''- point two'']"
    by (simp add: ustr_def)
  have b: "\<not> is_bullet_line (ustr ''Intro line.'')" "is_bullet_line (ustr ''- point one'')"
    by (simp_all add: is_bullet_line_def ustr_def isspace_def)
  have s: "strip_bullet (ustr ''- point one'') = ustr ''point one''"
    "strip_bullet (ustr ''- point two'') = ustr ''point two''"
    by (simp_all add: strip_bullet_def py_strip_def py_lstrip_def ustr_def isspace_def)
  have p: "scan_lines [ustr ''Intro line.''] =
      \<lparr>hit_bullets = False, summary_lines = [ustr ''Intro line.''], bullets = []\<rparr>"
    using b(1) by (simp add: scan_lines_def scan_from_def scan_init_def scan_step_def)
  have "scan_lines (split_on 10 ?ex) =
      scan_lines [ustr ''Intro line.'', ustr ''- point one'', ustr ''- point two'']"
    by (simp only: l)
  also have "\<dots> =
      scan_from (scan_step (scan_lines [ustr ''Intro line.'']) (ustr ''- point one'')) [ustr ''- point two'']"
    by (simp add: scan_lines_def scan_from_def)
  also have "\<dots> = \<lparr>hit_bullets = True, summary_lines = [ustr ''Intro line.''],
                     bullets = [ustr ''point one'', ustr ''point two'']\<rparr>"
    using b(2) by (simp add: p scan_step_bullet scan_from_latched s)
  finally have sc: "scan_lines (split_on 10 ?ex) =
      \<lparr>hit_bullets = True, summary_lines = [ustr ''Intro line.''],
       bullets = [ustr ''point one'', ustr ''point two'']\<rparr>" .
  have st: "py_strip (ustr ''Intro line.'') = ustr ''Intro line.''"
    by (simp add: py_strip_def ustr_def isspace_def)
  have ne: "ustr ''point one'' \<noteq> []" "ustr ''point two'' \<noteq> []"
    by (simp_all add: ustr_def)
  have first: "\<exists>p. compose S vid trimmed ?ex = Json_ok p \<and> summary p = ustr ''Intro line.'' \<and>
        keyPoints p = [ustr ''point one'', ustr ''point two'']"
  proof -
    from compose_ok [OF m, of S vid trimmed] obtain p where
      p: "compose S vid trimmed ?ex = Json_ok p"
         "summary p = py_strip (join (ustr '' '') (summary_lines (scan_lines (split_on 10 ?ex))))"
         "keyPoints p = filter (\<lambda>b. b \<noteq> []) (bullets (scan_lines (split_on 10 ?ex)))"
      by blast
    have "summary p = ustr ''Intro line.''"
      unfolding p(2) sc by (simp add: st)
    moreover have "keyPoints p = [ustr ''point one'', ustr ''point two'']"
      unfolding p(3) sc using ne by simp
    ultimately show ?thesis using p(1) by blast
  qed
  have second: "\<exists>p. compose S vid trimmed out = Json_ok p \<and> keyPoints p = [] \<and>
           summary p = py_strip (join (ustr '' '') (split_on 10 out))"
    if "\<not> startswith out failure_marker" and "\<forall>l \<in> set (split_on 10 out). \<not> is_bullet_line l"
  proof -
    have "scan_lines (split_on 10 out) = scan_init\<lparr>summary_lines := split_on 10 out\<rparr>"
      using scan_from_prose [of scan_init "split_on 10 out"] that(2)
      by (simp add: scan_lines_def scan_init_def)
    then show ?thesis using compose_ok [OF that(1), of S vid trimmed]
      by (auto simp: scan_init_def)
  qed
  from first second show ?thesis by blast
qed

theorem compose_summary_and_key_points_witness:
  "\<not> startswith (ustr ''Hi'' @ [10]) failure_marker \<and>
   split_on 10 (ustr ''Hi'' @ [10]) = [ustr ''Hi'', []] \<and>
   \<not> is_bullet_line (ustr ''Hi'') \<and> \<not> is_bullet_line [] \<and>
   keyPoints (body (compose (stub_services (Inr sample_entries) (Inr []) []) sample_id (ustr ''hello world'')
                      (ustr ''Hi'' @ [10]))) = [] \<and>
   summary (body (compose (stub_services (Inr sample_entries) (Inr []) []) sample_id (ustr ''hello world'')
                      (ustr ''Hi'' @ [10]))) = ustr ''Hi''"
proof -
  let ?out = "ustr ''Hi'' @ [10]"
  have m: "\<not> startswith ?out failure_marker"
    by (simp add: failure_marker_def ustr_def)
  have l: "split_on 10 ?out = [ustr ''Hi'', []]"
    by (simp add: ustr_def)
  have b: "\<forall>l \<in> set (split_on 10 ?out). \<not> is_bullet_line l"
    by (simp add: l is_bullet_line_def ustr_def)
  have s: "py_strip (join (ustr '' '') (split_on 10 ?out)) = ustr ''Hi''"
    by (simp add: l py_strip_def ustr_def isspace_def)
  have n: "\<not> is_bullet_line (ustr ''Hi'')" "\<not> is_bullet_line []"
    by (simp_all add: is_bullet_line_def ustr_def)
  from compose_summary_and_key_points
         [of "stub_services (Inr sample_entries) (Inr []) []" sample_id "ustr ''hello world''" ?out]
       m b s
  have "keyPoints (body (compose (stub_services (Inr sample_entries) (Inr []) []) sample_id
                      (ustr ''hello world'') ?out)) = [] \<and>
        summary (body (compose (stub_services (Inr sample_entries) (Inr []) []) sample_id
                      (ustr ''hello world'') ?out)) = ustr ''Hi''"
    by auto
  with m l n show ?thesis by simp
qed

text \<open>
  The summary is not always the joined text: a text that ends with a line feed has the joined
  text "Hi " and the summary "Hi".
\<close>

theorem summary_is_stripped_counterexample:
  "\<not> startswith (ustr ''Hi'' @ [10]) failure_marker \<and>
   split_on 10 (ustr ''Hi'' @ [10]) = [ustr ''Hi'', []] \<and>
   \<not> is_bullet_line (ustr ''Hi'') \<and> \<not> is_bullet_line [] \<and>
   join (ustr '' '') (split_on 10 (ustr ''Hi'' @ [10])) = ustr ''Hi '' \<and>
   summary (body (compose (stub_services (Inr sample_entries) (Inr []) []) sample_id (ustr ''hello world'')
                      (ustr ''Hi'' @ [10]))) = ustr ''Hi'' \<and>
   summary (body (compose (stub_services (Inr sample_entries) (Inr []) []) sample_id (ustr ''hello world'')
                      (ustr ''Hi'' @ [10])))
     \<noteq> join (ustr '' '') (split_on 10 (ustr ''Hi'' @ [10]))"
proof -
  let ?out = "ustr ''Hi'' @ [10]"
  have m: "\<not> startswith ?out failure_marker"
    by (simp add: failure_marker_def ustr_def)
  have l: "split_on 10 ?out = [ustr ''Hi'', []]"
    by (simp add: ustr_def)
  have b: "\<not> is_bullet_line (ustr ''Hi'')" "\<not> is_bullet_line []"
    by (simp_all add: is_bullet_line_def ustr_def)
  have j: "join (ustr '' '') (split_on 10 ?out) = ustr ''Hi ''"
    by (simp add: l ustr_def)
  have sc: "scan_lines (split_on 10 ?out) = scan_init\<lparr>summary_lines := [ustr ''Hi'', []]\<rparr>"
    using scan_from_prose [of scan_init "split_on 10 ?out"] b
    by (simp add: l scan_lines_def scan_init_def)
  have "py_strip (join (ustr '' '') [ustr ''Hi'', []]) = ustr ''Hi''"
    by (simp add: py_strip_def ustr_def isspace_def)
  then have s: "summary (body (compose (stub_services (Inr sample_entries) (Inr []) []) sample_id
                      (ustr ''hello world'') ?out)) = ustr ''Hi''"
    using compose_ok [OF m, of "stub_services (Inr sample_entries) (Inr []) []" sample_id "ustr ''hello world''"]
    by (auto simp: sc scan_init_def)
  have "ustr ''Hi'' \<noteq> ustr ''Hi ''" by (simp add: ustr_def)
  with m l b j s show ?thesis by simp
qed

text \<open>
  C10, as the code has it. Every key point of a success payload is a non-empty string with
  no whitespace at either end, and it is some line of the output stripped of its leading
  hyphens, bullets and spaces and then of the whitespace at both ends. When what the first
  strip leaves does not start with a whitespace character, the key point starts with neither
  a hyphen nor a bullet.
\<close>

theorem key_points_elements:
  assumes "compose S vid trimmed out = Json_ok p"
    and "k \<in> set (keyPoints p)"
  shows "k \<noteq> [] \<and> \<not> isspace (hd k) \<and> \<not> isspace (last k) \<and>
         (\<exists>line \<in> set (split_on 10 out).
            k = py_strip (py_lstrip [45, 8226, 32] line) \<and>
            (\<not> isspace (hd (py_lstrip [45, 8226, 32] line)) \<longrightarrow> hd k \<noteq> 45 \<and> hd k \<noteq> 8226))"
proof -
  from assms(1) have m: "\<not> startswith out failure_marker" by (rule compose_ok_iff)
  from compose_ok [OF m, of S vid trimmed] assms(1)
  have kp: "keyPoints p = filter (\<lambda>b. b \<noteq> []) (bullets (scan_lines (split_on 10 out)))"
    by auto
  with assms(2) have ne: "k \<noteq> []" and "k \<in> set (bullets (scan_lines (split_on 10 out)))"
    by auto
  then obtain line where line: "line \<in> set (split_on 10 out)" "k = strip_bullet line"
    using bullets_scan_lines by blast
  let ?r = "py_lstrip [45, 8226, 32] line"
  have k: "k = py_strip ?r" using line(2) by (simp add: strip_bullet_def)
  from ne k have ends: "\<not> isspace (hd k)" "\<not> isspace (last k)"
    using py_strip_ends [of ?r] by simp_all
  have head: "hd k \<noteq> 45 \<and> hd k \<noteq> 8226" if h: "\<not> isspace (hd ?r)"
  proof -
    have r: "?r \<noteq> []"
    proof
      assume "?r = []"
      then have "k = []" using k by (simp add: py_strip_def)
      with ne show False by simp
    qed
    from py_strip_keeps_head [OF r h] k have "hd k = hd ?r" by simp
    moreover from py_lstrip_head [OF r] have "hd ?r \<notin> set [45, 8226, 32]" .
    ultimately show ?thesis by auto
  qed
  from ne ends line(1) k head show ?thesis by blast
qed

theorem key_points_elements_witness:
  "compose (stub_services (Inr sample_entries) (Inr []) []) sample_id (ustr ''hello world'')
       (ustr ''Intro'' @ [10] @ ustr ''- one'')
     = Json_ok (body (compose (stub_services (Inr sample_entries) (Inr []) []) sample_id
                        (ustr ''hello world'') (ustr ''Intro'' @ [10] @ ustr ''- one''))) \<and>
   ustr ''one'' \<in> set (keyPoints (body (compose (stub_services (Inr sample_entries) (Inr []) [])
                        sample_id (ustr ''hello world'') (ustr ''Intro'' @ [10] @ ustr ''- one'')))) \<and>
   \<not> isspace (hd (py_lstrip [45, 8226, 32] (ustr ''- one''))) \<and>
   ustr ''one'' \<noteq> [] \<and> \<not> isspace (hd (ustr ''one'')) \<and> \<not> isspace (last (ustr ''one'')) \<and>
   hd (ustr ''one'') \<noteq> 45 \<and> hd (ustr ''one'') \<noteq> 8226"
proof -
  let ?S = "stub_services (Inr sample_entries) (Inr []) []"
  let ?out = "ustr ''Intro'' @ [10] @ ustr ''- one''"
  let ?c = "compose ?S sample_id (ustr ''hello world'') ?out"
  have m: "\<not> startswith ?out failure_marker"
    by (simp add: failure_marker_def ustr_def)
  have l: "split_on 10 ?out = [ustr ''Intro'', ustr ''- one'']"
    by (simp add: ustr_def)
  have b: "\<not> is_bullet_line (ustr ''Intro'')" "is_bullet_line (ustr ''- one'')"
    by (simp_all add: is_bullet_line_def ustr_def isspace_def)
  have s: "strip_bullet (ustr ''- one'') = ustr ''one''"
    by (simp add: strip_bullet_def py_strip_def py_lstrip_def ustr_def isspace_def)
  have "scan_lines (split_on 10 ?out) = scan_lines [ustr ''Intro'', ustr ''- one'']"
    by (simp only: l)
  also have "\<dots> = \<lparr>hit_bullets = True, summary_lines = [ustr ''Intro''], bullets = [ustr ''one'']\<rparr>"
    using b by (simp add: scan_lines_def scan_from_def scan_init_def scan_step_def s)
  finally have sc: "scan_lines (split_on 10 ?out) =
      \<lparr>hit_bullets = True, summary_lines = [ustr ''Intro''], bullets = [ustr ''one'']\<rparr>" .
  from compose_ok [OF m, of ?S sample_id "ustr ''hello world''"] obtain p where
    p: "?c = Json_ok p"
       "keyPoints p = filter (\<lambda>b. b \<noteq> []) (bullets (scan_lines (split_on 10 ?out)))"
    by blast
  have ne: "ustr ''one'' \<noteq> []" by (simp add: ustr_def)
  have kp: "keyPoints p = [ustr ''one'']" unfolding p(2) sc using ne by simp
  have c: "?c = Json_ok (body ?c)" unfolding p(1) by simp
  have mem: "ustr ''one'' \<in> set (keyPoints (body ?c))" unfolding p(1) by (simp add: kp)
  have h: "\<not> isspace (hd (py_lstrip [45, 8226, 32] (ustr ''- one'')))"
    by (simp add: py_lstrip_def ustr_def isspace_def)
  have e: "\<not> isspace (hd (ustr ''one''))" "\<not> isspace (last (ustr ''one''))"
    "hd (ustr ''one'') \<noteq> 45" "hd (ustr ''one'') \<noteq> 8226"
    by (simp_all add: ustr_def isspace_def)
  from key_points_elements [OF c mem] c mem h ne e show ?thesis by blast
qed

text \<open>
  A key point can start with a hyphen: in the line hyphen, tab, "- item" the first strip
  stops at the tab, and the second strip removes the tab only.
\<close>

theorem key_point_starts_with_hyphen_counterexample:
  "keyPoints (body (compose (stub_services (Inr sample_entries) (Inr []) []) sample_id
                      (ustr ''hello world'') ([45, 9] @ ustr ''- item'')))
     = [ustr ''- item''] \<and>
   hd (ustr ''- item'') = 45"
proof -
  let ?S = "stub_services (Inr sample_entries) (Inr []) []"
  let ?out = "[45, 9] @ ustr ''- item''"
  have m: "\<not> startswith ?out failure_marker"
    by (simp add: failure_marker_def ustr_def)
  have l: "split_on 10 ?out = [?out]"
    by (simp add: ustr_def)
  have b: "is_bullet_line ?out"
    by (simp add: is_bullet_line_def ustr_def isspace_def)
  have s: "strip_bullet ?out = ustr ''- item''"
    by (simp add: strip_bullet_def py_strip_def py_lstrip_def ustr_def isspace_def)
  have "scan_lines (split_on 10 ?out) = scan_lines [?out]"
    by (simp only: l)
  also have "\<dots> = scan_step scan_init ?out"
    by (simp add: scan_lines_def scan_from_def)
  also have "\<dots> = \<lparr>hit_bullets = True, summary_lines = [], bullets = [ustr ''- item'']\<rparr>"
    unfolding scan_step_bullet [OF b] s by (simp add: scan_init_def)
  finally have sc: "scan_lines (split_on 10 ?out) =
      \<lparr>hit_bullets = True, summary_lines = [], bullets = [ustr ''- item'']\<rparr>" .
  from compose_ok [OF m, of ?S sample_id "ustr ''hello world''"] obtain p where
    p: "compose ?S sample_id (ustr ''hello world'') ?out = Json_ok p"
       "keyPoints p = filter (\<lambda>b. b \<noteq> []) (bullets (scan_lines (split_on 10 ?out)))"
    by blast
  have ne: "ustr ''- item'' \<noteq> []" by (simp add: ustr_def)
  have "keyPoints p = [ustr ''- item'']" unfolding p(2) sc using ne by simp
  then have "keyPoints (body (compose ?S sample_id (ustr ''hello world'') ?out)) = [ustr ''- item'']"
    unfolding p(1) by simp
  moreover have "hd (ustr ''- item'') = 45" by (simp add: ustr_def)
  ultimately show ?thesis by blast
qed

section \<open>Properties of the float model\<close>

lemma round_half_even_error:
  "\<bar>of_int (round_half_even x) - x\<bar> \<le> 1 / 2"
proof -
  have "of_int \<lfloor>x\<rfloor> \<le> x" "x < of_int \<lfloor>x\<rfloor> + 1" by linarith+
  then show ?thesis
    by (auto simp: round_half_even_def Let_def)
qed

lemma round_half_even_of_int: "round_half_even (of_int n) = n"
  by (simp add: round_half_even_def)

lemma binary_exponent_lower:
  assumes "0 < x"
  shows "2 powi (binary_exponent x) \<le> x"
proof -
  obtain p q where pq: "quotient_of x = (p, q)" by (cases "quotient_of x")
  then have q: "0 < q" by (rule quotient_of_denom_pos)
  from pq have x: "x = of_int p / of_int q" by (rule quotient_of_div)
  with assms q have p: "0 < p" by (simp add: zero_less_divide_iff)
  let ?e0 = "bitlen p - bitlen q"
  show ?thesis
  proof (cases "2 powi ?e0 \<le> x")
    case True
    then show ?thesis by (simp add: binary_exponent_def pq)
  next
    case False
    from bitlen_bounds [OF p] have lp: "2 ^ nat (bitlen p - 1) \<le> p" by simp
    from bitlen_bounds [OF q] have uq: "q < 2 ^ nat (bitlen q)" by simp
    have bp: "1 \<le> bitlen p" using p by (simp add: bitlen_alt_def)
    have "(2::rat) powi (?e0 - 1) = 2 powi (bitlen p - 1) / 2 powi (bitlen q)"
      using power_int_diff [of "2::rat" "bitlen p - 1" "bitlen q"] by (simp add: algebra_simps)
    also have "\<dots> = 2 ^ nat (bitlen p - 1) / 2 ^ nat (bitlen q)"
      using bp bitlen_nonneg [of q] by (simp add: power_int_def)
    also have "\<dots> \<le> of_int p / of_int q"
    proof (rule frac_le)
      show "(0::rat) \<le> of_int p" using p by simp
      have "(of_int (2 ^ nat (bitlen p - 1)) :: rat) \<le> of_int p" using lp by (simp only: of_int_le_iff)
      then show "(2::rat) ^ nat (bitlen p - 1) \<le> of_int p" by simp
      show "(0::rat) < of_int q" using q by simp
      have "(of_int q :: rat) \<le> of_int (2 ^ nat (bitlen q))" using uq by (simp only: of_int_le_iff less_imp_le)
      then show "(of_int q :: rat) \<le> 2 ^ nat (bitlen q)" by simp
    qed
    finally have "2 powi (?e0 - 1) \<le> x" using x by simp
    with False show ?thesis by (simp add: binary_exponent_def pq)
  qed
qed

lemma to_double_error:
  assumes "0 < x"
  shows "\<bar>to_double x - x\<bar> \<le> 2 powi (binary_exponent x - 52) / 2"
proof -
  let ?e = "binary_exponent x"
  let ?m = "round_half_even (x * 2 powi (52 - ?e))"
  have td: "to_double x = of_int ?m * 2 powi (?e - 52)"
    using assms by (simp add: to_double_def Let_def)
  have inv: "(2::rat) powi (52 - ?e) * 2 powi (?e - 52) = 1"
    using power_int_add [of "2::rat" "52 - ?e" "?e - 52"] by simp
  have "to_double x - x = (of_int ?m - x * 2 powi (52 - ?e)) * 2 powi (?e - 52)"
    using inv by (simp add: td algebra_simps)
  then have "\<bar>to_double x - x\<bar> = \<bar>of_int ?m - x * 2 powi (52 - ?e)\<bar> * 2 powi (?e - 52)"
    by (simp add: abs_mult)
  also have "\<dots> \<le> (1 / 2) * 2 powi (?e - 52)"
    by (rule mult_right_mono [OF round_half_even_error]) simp
  finally show ?thesis by simp
qed

lemma small_power: "(2::rat) powi (- 47) \<le> 1 / 1000"
proof -
  have "(1000::rat) \<le> 2 ^ 47" by simp
  then have "inverse ((2::rat) ^ 47) \<le> inverse 1000"
    by (rule le_imp_inverse_le) simp
  moreover have "(2::rat) powi (- 47) = inverse (2 ^ 47)"
    by (simp only: power_int_minus power_int_numeral)
  ultimately show ?thesis by (simp only: inverse_eq_divide)
qed

lemma to_double_error_small:
  assumes "0 \<le> x" and "x < 32"
  shows "\<bar>to_double x - x\<bar> \<le> 1 / 1000"
proof (cases "x = 0")
  case True
  then show ?thesis by (simp add: to_double_def)
next
  case False
  with assms have pos: "0 < x" by simp
  let ?z = "(2::rat) powi (binary_exponent x - 52)"
  from binary_exponent_lower [OF pos] assms(2)
  have "(2::rat) powi binary_exponent x < 2 powi 5" by simp
  then have "binary_exponent x < 5"
    by (rule power_int_le_imp_less_exp [of "2::rat", rotated]) simp_all
  then have "binary_exponent x - 52 \<le> - 47" by simp
  then have z: "?z \<le> 2 powi (- 47)"
    by (rule power_int_increasing) simp_all
  have "0 < ?z" by simp
  then have "?z / 2 \<le> ?z" by simp
  with to_double_error [OF pos] have "\<bar>to_double x - x\<bar> \<le> ?z" by (rule order_trans)
  also note z
  also note small_power
  finally show ?thesis .
qed

lemma py_truediv_400: "py_round1 (py_truediv 400 200) = 2"
  by code_simp

lemma scale_bound_up: "(x::rat) \<le> 1 / 2 + 1 / 100 \<Longrightarrow> 20 * x \<le> 51 / 5"
  by simp

lemma scale_bound_down: "20 * (x::rat) \<le> 10 \<Longrightarrow> x \<le> 1 / 2"
  by simp

lemma nearest_tenth:
  assumes "n \<le> 4000"
  shows "\<bar>of_int (round_half_even (py_truediv (int n) 200 * 10)) / 10 - of_nat n / 200\<bar> \<le> (1 / 20 :: rat)"
proof -
  let ?q = "of_nat n / 200 :: rat"
  let ?d = "py_truediv (int n) 200"
  let ?t = "round_half_even (?d * 10)"
  let ?k = "20 * ?t - int n"
  have d: "?d = to_double ?q" by (simp add: py_truediv_def)
  have "(of_nat n :: rat) \<le> 4000" using assms by (metis of_nat_le_iff of_nat_numeral)
  then have q: "0 \<le> ?q" "?q < 32" by simp_all
  have e1: "\<bar>?d - ?q\<bar> \<le> 1 / 1000" unfolding d by (rule to_double_error_small [OF q])
  have e2: "\<bar>of_int ?t - ?d * 10\<bar> \<le> 1 / 2" by (rule round_half_even_error)
  have k: "rat_of_int ?k = 20 * (of_int ?t - ?q * 10)" by simp
  have ak: "\<bar>rat_of_int ?k\<bar> = 20 * \<bar>of_int ?t - ?q * 10\<bar>"
    by (simp only: k abs_mult abs_numeral)
  have "\<bar>of_int ?t - ?q * 10\<bar> \<le> 1 / 2 + 1 / 100" using e1 e2 by linarith
  then have "\<bar>rat_of_int ?k\<bar> \<le> 51 / 5" unfolding ak by (rule scale_bound_up)
  then have "rat_of_int \<bar>?k\<bar> \<le> 51 / 5" by simp
  then have "rat_of_int \<bar>?k\<bar> < rat_of_int 11" by simp
  then have "\<bar>?k\<bar> < 11" by (simp only: of_int_less_iff)
  then have "\<bar>?k\<bar> \<le> 10" by simp
  then have "rat_of_int \<bar>?k\<bar> \<le> rat_of_int 10" by (simp only: of_int_le_iff)
  then have "\<bar>rat_of_int ?k\<bar> \<le> 10" by simp
  then have "\<bar>of_int ?t - ?q * 10\<bar> \<le> 1 / 2" unfolding ak by (rule scale_bound_down)
  moreover have "of_int ?t / 10 - ?q = (of_int ?t - ?q * 10) / 10" by simp
  ultimately show ?thesis by (simp only: abs_divide abs_numeral)
qed

lemma split_ws_length:
  "length (split_ws w s) \<le> length s + (if w = [] then 0 else 1)"
proof (induction s arbitrary: w)
  case Nil
  then show ?case by simp
next
  case (Cons a s)
  from Cons.IH [of "[]"] Cons.IH [of "w @ [a]"] show ?case by auto
qed

lemma py_split_length: "length (py_split s) \<le> length s"
  using split_ws_length [of "[]" s] by (simp add: py_split_def)

lemma trim_length: "length (trim_to_char_limit s) \<le> 4000"
  by (simp add: trim_to_char_limit_def trim_to_char_limit_at_def max_chars_default_def)

lemma summarize_video_ok:
  assumes "summarize_video S url_field = Json_ok p"
  shows "\<exists>url vid entries. url_field = Some url \<and> extract_video_id url = Some vid \<and>
           snd (get_transcript_fallback S vid) = Inr entries \<and>
           compose S vid (trim_to_char_limit (join (ustr '' '') (map entry_text entries)))
             (generate_summary_with_gemini S
                (trim_to_char_limit (join (ustr '' '') (map entry_text entries)))) = Json_ok p"
  using assms
  by (auto simp: summarize_video_def Let_def split: option.splits if_splits sum.splits exn.splits)

lemma join_replicate:
  "join [32] (replicate (Suc n) [97]) = 97 # concat (replicate n [32, 97])"
  by (induction n) simp_all

lemma split_ws_replicate:
  "split_ws [97] (concat (replicate n [32, 97])) = replicate (Suc n) [97]"
  by (induction n) (simp_all add: isspace_def replicate_append_same)

lemma py_split_join_replicate:
  "py_split (join [32] (replicate (Suc n) [97])) = replicate (Suc n) [97]"
  by (simp add: py_split_def join_replicate split_ws_replicate isspace_def del: replicate.simps)

lemma four_hundred_words_text:
  "join (ustr '' '') (map entry_text four_hundred_words) = join [32] (replicate (Suc 399) [97])"
  by (simp add: four_hundred_words_def ustr_def)

lemma four_hundred_words_length:
  "length (join [32] (replicate (Suc 399) [97])) \<le> 4000"
  by (simp only: join_replicate) (simp add: length_concat sum_list_replicate)

lemma four_hundred_words_count:
  "length (py_split (trim_to_char_limit (join (ustr '' '') (map entry_text four_hundred_words)))) = 400"
proof -
  have "trim_to_char_limit (join [32] (replicate (Suc 399) [97])) = join [32] (replicate (Suc 399) [97])"
    using four_hundred_words_length
    by (simp only: trim_to_char_limit_def trim_to_char_limit_at_def max_chars_default_def if_True)
  then show ?thesis
    by (simp only: four_hundred_words_text py_split_join_replicate length_replicate)
qed

text \<open>
  C8. In the success payload the word count is the number of whitespace-separated words of
  the trimmed transcript, and the reading time is the word count divided by 200 and rounded
  to one decimal: it is the float nearest to a decimal \<open>t / 10\<close> that lies within 0.05 of the
  exact quotient. A trimmed transcript of 400 words gives the reading time 2.0.
\<close>

theorem word_count_and_reading_time:
  assumes "summarize_video S url_field = Json_ok p"
  shows "(\<exists>vid entries. snd (get_transcript_fallback S vid) = Inr entries \<and>
            transcript p = trim_to_char_limit (join (ustr '' '') (map entry_text entries))) \<and>
         wordCount p = length (py_split (transcript p)) \<and>
         readingTime p = py_round1 (py_truediv (int (wordCount p)) 200) \<and>
         (\<exists>t::int. readingTime p = to_double (of_int t / 10) \<and>
                   \<bar>of_int t / 10 - of_nat (wordCount p) / 200\<bar> \<le> (1 / 20 :: rat)) \<and>
         (wordCount p = 400 \<longrightarrow> readingTime p = 2)"
proof -
  from summarize_video_ok [OF assms] obtain url vid entries where
    f: "snd (get_transcript_fallback S vid) = Inr entries"
    and c: "compose S vid (trim_to_char_limit (join (ustr '' '') (map entry_text entries)))
             (generate_summary_with_gemini S
                (trim_to_char_limit (join (ustr '' '') (map entry_text entries)))) = Json_ok p"
    by blast
  let ?trimmed = "trim_to_char_limit (join (ustr '' '') (map entry_text entries))"
  from c have m: "\<not> startswith (generate_summary_with_gemini S ?trimmed) failure_marker"
    by (rule compose_ok_iff)
  from compose_ok [OF m, of S vid ?trimmed] c
  have tr: "transcript p = ?trimmed"
    and wc: "wordCount p = length (py_split ?trimmed)"
    and rt: "readingTime p = py_round1 (py_truediv (int (length (py_split ?trimmed))) 200)"
    by auto
  have wc': "wordCount p = length (py_split (transcript p))" using tr wc by simp
  have rt': "readingTime p = py_round1 (py_truediv (int (wordCount p)) 200)" using rt wc by simp
  have "wordCount p \<le> length ?trimmed" unfolding wc by (rule py_split_length)
  also have "\<dots> \<le> 4000" by (rule trim_length)
  finally have b: "wordCount p \<le> 4000" .
  let ?t = "round_half_even (py_truediv (int (wordCount p)) 200 * 10)"
  have "readingTime p = to_double (of_int ?t / 10)" unfolding rt' by (simp add: py_round1_def)
  with nearest_tenth [OF b]
  have near: "\<exists>t::int. readingTime p = to_double (of_int t / 10) \<and>
                   \<bar>of_int t / 10 - of_nat (wordCount p) / 200\<bar> \<le> (1 / 20 :: rat)"
    by blast
  have "readingTime p = 2" if "wordCount p = 400"
    unfolding rt' that using py_truediv_400 by simp
  with f tr wc' rt' near show ?thesis by blast
qed

theorem word_count_and_reading_time_witness:
  "summarize_video (stub_services (Inr four_hundred_words) (Inr []) (ustr ''A summary.'')) (Some sample_url)
     = Json_ok (body (summarize_video (stub_services (Inr four_hundred_words) (Inr []) (ustr ''A summary.''))
                        (Some sample_url))) \<and>
   wordCount (body (summarize_video (stub_services (Inr four_hundred_words) (Inr []) (ustr ''A summary.''))
                      (Some sample_url))) = 400 \<and>
   readingTime (body (summarize_video (stub_services (Inr four_hundred_words) (Inr []) (ustr ''A summary.''))
                        (Some sample_url))) = 2"
proof -
  let ?S = "stub_services (Inr four_hundred_words) (Inr []) (ustr ''A summary.'')"
  let ?trimmed = "trim_to_char_limit (join (ustr '' '') (map entry_text four_hundred_words))"
  let ?r = "summarize_video ?S (Some sample_url)"
  have u: "sample_url \<noteq> []" "sample_id \<noteq> []" by (simp_all add: sample_url_def sample_id_def ustr_def)
  have f: "snd (get_transcript_fallback ?S sample_id) = Inr four_hundred_words"
    by (simp add: get_transcript_fallback_def stub_services_def)
  have g: "generate_summary_with_gemini ?S ?trimmed = ustr ''A summary.''"
    by (simp add: stub_services_def)
  have m: "\<not> startswith (ustr ''A summary.'') failure_marker"
    by (simp add: failure_marker_def ustr_def)
  have r: "?r = compose ?S sample_id ?trimmed (ustr ''A summary.'')"
    using u f g sample_extract by (simp add: summarize_video_def Let_def)
  from compose_ok [OF m, of ?S sample_id ?trimmed] obtain p where
    p: "compose ?S sample_id ?trimmed (ustr ''A summary.'') = Json_ok p"
       "wordCount p = length (py_split ?trimmed)"
    by blast
  have ok: "?r = Json_ok (body ?r)" unfolding r p(1) by simp
  have "length (py_split ?trimmed) = 400" by (rule four_hundred_words_count)
  with p(2) have w: "wordCount (body ?r) = 400" unfolding r p(1) by simp
  from word_count_and_reading_time [OF ok] w have "readingTime (body ?r) = 2" by blast
  with ok w show ?thesis by blast
qed

end
